theory Spec2Isabelle
  imports Main "HOL-Library.Word" "HOL-Library.Sublist" "HOL-Library.List_Lexorder"
begin

section \<open>JavaScript values, buffers and errors\<close>

text \<open>
  A Node \<open>Buffer\<close> is a list of bytes. The values that can reach the key and bound
  parameters of the library are modelled by \<open>jsval\<close>: the primitives, strings (code
  points below 256, one \<open>char\<close> each), buffers and arrays. Every \<open>throw\<close> of the source is
  a value of \<open>error\<close> on the left of a sum.
\<close>

type_synonym byte = "8 word"
type_synonym bytes = "byte list"

datatype jsval =
    JUndefined
  | JNull
  | JBool bool
  | JNumber int
  | JString string
  | JBuffer bytes
  | JArray "jsval list"

datatype error =
    AssertionError
  | TypeError
  | UnknownPrefix
  | StoreError

text \<open>\<open>Buffer.isBuffer\<close> and \<open>Array.isArray\<close>.\<close>

fun isBuffer :: "jsval \<Rightarrow> bool" where
  "isBuffer (JBuffer b) = True"
| "isBuffer v = False"

fun isArray :: "jsval \<Rightarrow> bool" where
  "isArray (JArray xs) = True"
| "isArray v = False"

text \<open>JavaScript truthiness, as used by \<open>!options.reverse\<close>.\<close>

fun truthy :: "jsval \<Rightarrow> bool" where
  "truthy JUndefined = False"
| "truthy JNull = False"
| "truthy (JBool b) = b"
| "truthy (JNumber n) = (n \<noteq> 0)"
| "truthy (JString s) = (s \<noteq> [])"
| "truthy (JBuffer b) = True"
| "truthy (JArray xs) = True"

text \<open>
  \<open>new Buffer(string)\<close>: the UTF-8 bytes of the string. A code point below 128 is one
  byte, one from 128 to 255 is two bytes.
\<close>

definition utf8_char :: "char \<Rightarrow> bytes" where
  "utf8_char c =
     (let n = (of_char c :: nat) in
      if n < 128 then [of_nat n]
      else [of_nat (192 + n div 64), of_nat (128 + n mod 64)])"

definition utf8 :: "string \<Rightarrow> bytes" where
  "utf8 s = concat (map utf8_char s)"

text \<open>\<open>Array.prototype.concat\<close> with one argument: an array argument is spliced in
  element by element, any other value is appended as one element.\<close>

fun concat_js :: "jsval list \<Rightarrow> jsval \<Rightarrow> jsval list" where
  "concat_js xs (JArray ys) = xs @ ys"
| "concat_js xs v = xs @ [v]"


section \<open>Prefix (the level-updown variant)\<close>

text \<open>
  \<open>function Prefix(path)\<close> stores the path and \<open>bytewise.encode(path)\<close>. The encoder
  belongs to the library bytewise-core; it is the parameter \<open>enc\<close> of the constructor and
  of \<open>Prefix_append\<close>. The other methods only read the stored buffer.
\<close>

record Prefix =
  path :: "jsval list"
  buffer :: bytes

definition Prefix_new :: "(jsval list \<Rightarrow> bytes) \<Rightarrow> jsval list \<Rightarrow> Prefix" where
  "Prefix_new enc p = \<lparr>path = p, buffer = enc p\<rparr>"

definition Prefix_append :: "(jsval list \<Rightarrow> bytes) \<Rightarrow> Prefix \<Rightarrow> jsval \<Rightarrow> Prefix" where
  "Prefix_append enc N sub = Prefix_new enc (concat_js (path N) sub)"

text \<open>\<open>contains\<close>: \<open>assert(Buffer.isBuffer(key))\<close>, then compare the stored buffer with
  \<open>key.slice(0, this.buffer.length)\<close>.\<close>

fun contains :: "Prefix \<Rightarrow> jsval \<Rightarrow> error + bool" where
  "contains N (JBuffer k) = Inr (buffer N = take (length (buffer N)) k)"
| "contains N v = Inl AssertionError"

text \<open>\<open>decode\<close>: the key itself when \<open>contains\<close> is false, else
  \<open>key.slice(this.buffer.length)\<close>.\<close>

definition decode :: "Prefix \<Rightarrow> jsval \<Rightarrow> error + jsval" where
  "decode N key =
     (case contains N key of
        Inl e \<Rightarrow> Inl e
      | Inr c \<Rightarrow>
          if \<not> c then Inr key
          else (case key of
                  JBuffer k \<Rightarrow> Inr (JBuffer (drop (length (buffer N)) k))
                | _ \<Rightarrow> Inl TypeError))"

text \<open>\<open>encode\<close>: a string becomes a buffer first; \<open>Buffer.concat\<close> of the stored buffer
  and the key raises a \<open>TypeError\<close> when the key is not a buffer by then.\<close>

definition encode :: "Prefix \<Rightarrow> jsval \<Rightarrow> error + bytes" where
  "encode N key =
     (let key' = (case key of JString s \<Rightarrow> JBuffer (utf8 s) | _ \<Rightarrow> key) in
      case key' of
        JBuffer k \<Rightarrow> Inr (buffer N @ k)
      | _ \<Rightarrow> Inl TypeError)"

text \<open>\<open>N.decode(N.encode(k))\<close>, with an exception of \<open>encode\<close> passed on.\<close>

definition decode_encode :: "Prefix \<Rightarrow> jsval \<Rightarrow> error + jsval" where
  "decode_encode N k =
     (case encode N k of Inl e \<Rightarrow> Inl e | Inr b \<Rightarrow> decode N (JBuffer b))"

text \<open>One concrete path encoder, used only to evaluate examples: a tag byte, each element
  written as a tagged, zero-terminated string, and a closing zero byte. The theorems about
  \<open>Prefix_append\<close> hold for every encoder.\<close>

fun sample_element :: "jsval \<Rightarrow> bytes" where
  "sample_element (JString s) = 0x70 # utf8 s @ [0x00]"
| "sample_element v = [0x10]"

definition sample_encoder :: "jsval list \<Rightarrow> bytes" where
  "sample_encoder p = 0xA0 # concat (map sample_element p) @ [0x00]"


section \<open>preIterator: translating range options\<close>

text \<open>
  The range keys of an options object; \<open>None\<close> is an absent key, so that \<open>key in options\<close>
  is \<open>\<noteq> None\<close> and a key present with value \<open>undefined\<close> is \<open>Some JUndefined\<close>. The other
  keys of the object (\<open>limit\<close>, \<open>keys\<close>, \<open>values\<close>) are copied by \<open>xtend\<close> and never read.
\<close>

record range_options =
  opt_start :: "jsval option"
  opt_end :: "jsval option"
  opt_gt :: "jsval option"
  opt_lt :: "jsval option"
  opt_gte :: "jsval option"
  opt_lte :: "jsval option"
  opt_reverse :: "jsval option"
  opt_keyAsBuffer :: "jsval option"

text \<open>The object \<open>has\<close>, one flag for each of \<open>rangeKeys\<close>.\<close>

record has_keys =
  has_start :: bool
  has_end :: bool
  has_gt :: bool
  has_lt :: bool
  has_gte :: bool
  has_lte :: bool

definition LOWER_BOUND :: jsval where
  "LOWER_BOUND = JBuffer []"

definition UPPER_BOUND :: jsval where
  "UPPER_BOUND = JBuffer [0xFF]"

text \<open>Reading a property: an absent key reads as \<open>undefined\<close>.\<close>

fun getprop :: "jsval option \<Rightarrow> jsval" where
  "getprop None = JUndefined"
| "getprop (Some v) = v"

definition has_of :: "range_options \<Rightarrow> has_keys" where
  "has_of opts =
     \<lparr>has_start = (opt_start opts \<noteq> None), has_end = (opt_end opts \<noteq> None),
      has_gt = (opt_gt opts \<noteq> None), has_lt = (opt_lt opts \<noteq> None),
      has_gte = (opt_gte opts \<noteq> None), has_lte = (opt_lte opts \<noteq> None)\<rparr>"

text \<open>The block \<open>if (has.start || has.end) { ... }\<close>: with one of \<open>gt\<close>, \<open>lt\<close>, \<open>gte\<close>,
  \<open>lte\<close> present the branch is empty; otherwise \<open>start\<close> and \<open>end\<close> become \<open>gte\<close> and \<open>lte\<close>
  (swapped when \<open>reverse\<close> is truthy) and are deleted.\<close>

definition translate_start_end :: "range_options \<times> has_keys \<Rightarrow> range_options \<times> has_keys" where
  "translate_start_end oh =
     (let (opts, has) = oh in
      if has_start has \<or> has_end has then
        if has_gt has \<or> has_lt has \<or> has_gte has \<or> has_lte has then (opts, has)
        else
          (let opts1 =
                 (if \<not> truthy (getprop (opt_reverse opts)) then
                    opts\<lparr>opt_gte := Some (if has_start has then getprop (opt_start opts) else LOWER_BOUND),
                         opt_lte := Some (if has_end has then getprop (opt_end opts) else UPPER_BOUND)\<rparr>
                  else
                    opts\<lparr>opt_gte := Some (if has_end has then getprop (opt_end opts) else LOWER_BOUND),
                         opt_lte := Some (if has_start has then getprop (opt_start opts) else UPPER_BOUND)\<rparr>)
           in (opts1\<lparr>opt_start := None, opt_end := None\<rparr>, has\<lparr>has_gte := True, has_lte := True\<rparr>))
      else (opts, has))"

text \<open>The block \<open>if (has.gt) ... else if (has.gte) ... else ...\<close>.\<close>

definition resolve_lower :: "Prefix \<Rightarrow> range_options \<times> has_keys \<Rightarrow> error + range_options" where
  "resolve_lower N oh =
     (let (opts, has) = oh in
      if has_gt has then
        (case encode N (getprop (opt_gt opts)) of
           Inl e \<Rightarrow> Inl e
         | Inr b \<Rightarrow> Inr (opts\<lparr>opt_gt := Some (JBuffer b), opt_gte := None\<rparr>))
      else if has_gte has then
        (case encode N (getprop (opt_gte opts)) of
           Inl e \<Rightarrow> Inl e
         | Inr b \<Rightarrow> Inr (opts\<lparr>opt_gte := Some (JBuffer b)\<rparr>))
      else
        (case encode N LOWER_BOUND of
           Inl e \<Rightarrow> Inl e
         | Inr b \<Rightarrow> Inr (opts\<lparr>opt_gt := Some (JBuffer b)\<rparr>)))"

text \<open>The block \<open>if (has.lt) ... else if (has.lte) ... else ...\<close>.\<close>

definition resolve_upper :: "Prefix \<Rightarrow> range_options \<times> has_keys \<Rightarrow> error + range_options" where
  "resolve_upper N oh =
     (let (opts, has) = oh in
      if has_lt has then
        (case encode N (getprop (opt_lt opts)) of
           Inl e \<Rightarrow> Inl e
         | Inr b \<Rightarrow> Inr (opts\<lparr>opt_lt := Some (JBuffer b), opt_lte := None\<rparr>))
      else if has_lte has then
        (case encode N (getprop (opt_lte opts)) of
           Inl e \<Rightarrow> Inl e
         | Inr b \<Rightarrow> Inr (opts\<lparr>opt_lte := Some (JBuffer b)\<rparr>))
      else
        (case encode N UPPER_BOUND of
           Inl e \<Rightarrow> Inl e
         | Inr b \<Rightarrow> Inr (opts\<lparr>opt_lt := Some (JBuffer b)\<rparr>)))"

text \<open>\<open>preIterator\<close>, bound to the prefix \<open>N\<close>: the options it returns for the underlying
  iterator factory, or the exception of an \<open>encode\<close>.\<close>

definition preIterator :: "Prefix \<Rightarrow> range_options \<Rightarrow> error + range_options" where
  "preIterator N pre_options =
     (let options = pre_options\<lparr>opt_keyAsBuffer := Some (JBool True)\<rparr>;
          (opts1, has1) = translate_start_end (options, has_of options)
      in case resolve_lower N (opts1, has1) of
           Inl e \<Rightarrow> Inl e
         | Inr opts2 \<Rightarrow> resolve_upper N (opts2, has1))"

text \<open>The four bounds of an options object that are present.\<close>

definition bounds_of :: "range_options \<Rightarrow> jsval list" where
  "bounds_of opts =
     concat (map (\<lambda>b. case b of None \<Rightarrow> [] | Some v \<Rightarrow> [v])
               [opt_gt opts, opt_gte opts, opt_lt opts, opt_lte opts])"

text \<open>A value is a buffer that begins with the prefix bytes of \<open>N\<close>.\<close>

fun prefixed :: "Prefix \<Rightarrow> jsval \<Rightarrow> bool" where
  "prefixed N (JBuffer b) = prefix (buffer N) b"
| "prefixed N v = False"

text \<open>A key lies inside the window of an options object whose bounds are buffers:
  above \<open>gt\<close> and \<open>gte\<close>, below \<open>lt\<close> and \<open>lte\<close>, in the byte order of the store.\<close>

fun above :: "bool \<Rightarrow> jsval option \<Rightarrow> bytes \<Rightarrow> bool" where
  "above strict (Some (JBuffer b)) k = (if strict then b < k else b \<le> k)"
| "above strict v k = True"

fun below :: "bool \<Rightarrow> jsval option \<Rightarrow> bytes \<Rightarrow> bool" where
  "below strict (Some (JBuffer b)) k = (if strict then k < b else k \<le> b)"
| "below strict v k = True"

definition in_window :: "range_options \<Rightarrow> bytes \<Rightarrow> bool" where
  "in_window opts k =
     (above True (opt_gt opts) k \<and> above False (opt_gte opts) k
      \<and> below True (opt_lt opts) k \<and> below False (opt_lte opts) k)"


section \<open>addHook\<close>

text \<open>\<open>Array.prototype.indexOf\<close> (the first index holding the value, else \<open>-1\<close>) and
  \<open>splice(i, 1)\<close>.\<close>

fun indexOf :: "'a list \<Rightarrow> 'a \<Rightarrow> int" where
  "indexOf [] x = - 1"
| "indexOf (y # ys) x =
     (if y = x then 0
      else (let i = indexOf ys x in if i \<ge> 0 then i + 1 else - 1))"

definition splice1 :: "'a list \<Rightarrow> nat \<Rightarrow> 'a list" where
  "splice1 xs i = take i xs @ drop (Suc i) xs"

text \<open>The function that \<open>addHook\<close> returns, applied to the hook array as it is when the
  function is called: it looks the captured hook up with \<open>indexOf\<close>.\<close>

definition deregister :: "'h \<Rightarrow> 'h list \<Rightarrow> 'h list" where
  "deregister hook hooks =
     (let i = indexOf hooks hook in
      if i \<ge> 0 then splice1 hooks (nat i) else hooks)"

text \<open>\<open>addHook(hooks, hook)\<close>: the array after the \<open>push\<close>, and the returned function.\<close>

definition addHook :: "'h list \<Rightarrow> 'h \<Rightarrow> 'h list \<times> ('h list \<Rightarrow> 'h list)" where
  "addHook hooks hook = (hooks @ [hook], deregister hook)"


section \<open>Batches and commit hooks (index.js and its earlier variant)\<close>

text \<open>
  A batch operation is a mutable object. \<open>op.prefix\<close> is absent or refers to a handle
  (a \<open>Bytespace\<close> or any other object) by its address. The fields \<open>_initialKey\<close>,
  \<open>_initialKeyEncoding\<close> and \<open>_prefixId\<close> are written by the earlier variant only.
\<close>

type_synonym ref = nat

record op =
  op_type :: string
  op_key :: jsval
  op_value :: jsval
  op_prefix :: "ref option"
  op_keyEncoding :: "string option"
  op_valueEncoding :: "string option"
  op_sync :: jsval
  op_initialKey :: "jsval option"
  op_initialKeyEncoding :: "string option"
  op_prefixId :: "nat option"

text \<open>
  A pre-hook is called with \<open>(op, add, ops)\<close>. It is modelled by the calls of \<open>add\<close> it
  makes, in order, as a function of the operation: \<open>add(false)\<close> or \<open>add(op')\<close>. Hooks
  return normally. A post-hook has no effect on the batch; it is a name.
\<close>

datatype add_arg = AddFalse | AddOp op









text \<open>The array \<open>ops\<close> while a batch runs: \<open>None\<close> is a hole left by \<open>delete ops[i]\<close>.
  \<open>add\<close> closes over the loop variable \<open>i\<close>.\<close>

fun add :: "nat \<Rightarrow> add_arg \<Rightarrow> op option list \<Rightarrow> op option list" where
  "add i AddFalse ops = ops[i := None]"
| "add i (AddOp op) ops = ops @ [Some op]"










subsection \<open>index.js\<close>





subsection \<open>The earlier variant of the batch function\<close>






section \<open>Notions used in the statements\<close>

text \<open>A prefix and an options object to evaluate examples with.\<close>

definition sample_prefix :: Prefix where
  "sample_prefix = Prefix_new sample_encoder [JString ''a'']"

definition no_options :: range_options where
  "no_options =
     \<lparr>opt_start = None, opt_end = None, opt_gt = None, opt_lt = None, opt_gte = None,
      opt_lte = None, opt_reverse = None, opt_keyAsBuffer = None\<rparr>"

text \<open>\<open>has.x ? options.x : D\<close>.\<close>

fun or_default :: "jsval option \<Rightarrow> jsval \<Rightarrow> jsval" where
  "or_default None d = d"
| "or_default (Some v) d = v"

text \<open>The options with \<open>start\<close> and \<open>end\<close> removed and \<open>gte\<close>, \<open>lte\<close> set to the encoded
  \<open>lo\<close> and \<open>hi\<close>; the exception of the first \<open>encode\<close> that throws.\<close>

definition with_bounds :: "Prefix \<Rightarrow> range_options \<Rightarrow> jsval \<Rightarrow> jsval \<Rightarrow> error + range_options" where
  "with_bounds N opts lo hi =
     (case encode N lo of
        Inl e \<Rightarrow> Inl e
      | Inr g \<Rightarrow>
          (case encode N hi of
             Inl e \<Rightarrow> Inl e
           | Inr l \<Rightarrow>
               Inr (opts\<lparr>opt_start := None, opt_end := None,
                         opt_gte := Some (JBuffer g), opt_lte := Some (JBuffer l),
                         opt_keyAsBuffer := Some (JBool True)\<rparr>)))"

text \<open>The options hold \<open>start\<close> or \<open>end\<close> and none of the four other bounds; they hold
  \<open>start\<close> or \<open>end\<close> together with one of the four.\<close>

definition start_end_only :: "range_options \<Rightarrow> bool" where
  "start_end_only opts =
     ((opt_start opts \<noteq> None \<or> opt_end opts \<noteq> None)
      \<and> opt_gt opts = None \<and> opt_gte opts = None \<and> opt_lt opts = None \<and> opt_lte opts = None)"

definition mixed :: "range_options \<Rightarrow> bool" where
  "mixed opts =
     ((opt_start opts \<noteq> None \<or> opt_end opts \<noteq> None)
      \<and> (opt_gt opts \<noteq> None \<or> opt_gte opts \<noteq> None \<or> opt_lt opts \<noteq> None
         \<or> opt_lte opts \<noteq> None))"

text \<open>The flags of \<open>has\<close> agree with the keys of the options, for the lower and for the
  upper bounds.\<close>

definition consistent_lo :: "range_options \<times> has_keys \<Rightarrow> bool" where
  "consistent_lo oh =
     (let (opts, has) = oh in
      has_gt has = (opt_gt opts \<noteq> None) \<and> has_gte has = (opt_gte opts \<noteq> None))"

definition consistent_hi :: "range_options \<times> has_keys \<Rightarrow> bool" where
  "consistent_hi oh =
     (let (opts, has) = oh in
      has_lt has = (opt_lt opts \<noteq> None) \<and> has_lte has = (opt_lte opts \<noteq> None))"























section \<open>Prefix: encode, decode, contains\<close>

lemma utf8_single: "utf8 ''k'' = [0x6B]"
  by (simp add: utf8_def utf8_char_def)

lemma sample_prefix_eq:
  "sample_prefix = \<lparr>path = [JString ''a''], buffer = [0xA0, 0x70, 0x61, 0x00, 0x00]\<rparr>"
  by (simp add: sample_prefix_def Prefix_new_def sample_encoder_def utf8_def utf8_char_def)

lemma buffer_sample_prefix: "buffer sample_prefix = [0xA0, 0x70, 0x61, 0x00, 0x00]"
  by (simp add: sample_prefix_eq)

text \<open>
  C1 (as amended). For a buffer key, decoding the encoded key gives the key back; for a
  string key it gives the buffer of the string's UTF-8 bytes. A buffer that the prefix
  does not contain is decoded to itself; one that it contains is the prefix bytes followed
  by the remainder that \<open>decode\<close> returns.
\<close>

theorem decode_encode_roundtrip:
  "decode_encode N (JBuffer k) = Inr (JBuffer k)
   \<and> decode_encode N (JString s) = Inr (JBuffer (utf8 s))
   \<and> (contains N (JBuffer f) = Inr False \<longrightarrow> decode N (JBuffer f) = Inr (JBuffer f))
   \<and> (contains N (JBuffer f) = Inr True \<longrightarrow>
        f = buffer N @ drop (length (buffer N)) f
        \<and> decode N (JBuffer f) = Inr (JBuffer (drop (length (buffer N)) f)))"
proof -
  have a: "decode_encode N (JBuffer k) = Inr (JBuffer k)"
    by (simp add: decode_encode_def encode_def decode_def)
  have b: "decode_encode N (JString s) = Inr (JBuffer (utf8 s))"
    by (simp add: decode_encode_def encode_def decode_def)
  have c: "contains N (JBuffer f) = Inr False \<longrightarrow> decode N (JBuffer f) = Inr (JBuffer f)"
    by (simp add: decode_def)
  have d: "contains N (JBuffer f) = Inr True \<longrightarrow>
        f = buffer N @ drop (length (buffer N)) f
        \<and> decode N (JBuffer f) = Inr (JBuffer (drop (length (buffer N)) f))"
  proof
    assume h: "contains N (JBuffer f) = Inr True"
    then have eq: "buffer N = take (length (buffer N)) f" by simp
    have "f = take (length (buffer N)) f @ drop (length (buffer N)) f" by simp
    with eq have "f = buffer N @ drop (length (buffer N)) f" by simp
    moreover from h have "decode N (JBuffer f) = Inr (JBuffer (drop (length (buffer N)) f))"
      by (simp add: decode_def)
    ultimately show "f = buffer N @ drop (length (buffer N)) f
        \<and> decode N (JBuffer f) = Inr (JBuffer (drop (length (buffer N)) f))" by simp
  qed
  from a b c d show ?thesis by blast
qed

theorem decode_encode_roundtrip_witness:
  "contains sample_prefix (JBuffer [0xA0, 0x70, 0x61, 0x00, 0x00, 0x6B]) = Inr True
   \<and> decode sample_prefix (JBuffer [0xA0, 0x70, 0x61, 0x00, 0x00, 0x6B]) = Inr (JBuffer [0x6B])
   \<and> decode_encode sample_prefix (JBuffer [0x6B]) = Inr (JBuffer [0x6B])"
  using decode_encode_roundtrip
          [of sample_prefix "[0x6B]" "''k''" "[0xA0, 0x70, 0x61, 0x00, 0x00, 0x6B]"]
  by (simp add: buffer_sample_prefix)

theorem decode_encode_string_counterexample:
  "decode_encode sample_prefix (JString ''k'') = Inr (JBuffer [0x6B])
   \<and> decode_encode sample_prefix (JString ''k'') \<noteq> Inr (JString ''k'')"
  by (simp add: decode_encode_def encode_def decode_def utf8_single buffer_sample_prefix)

text \<open>
  C10. For a key that is not a buffer, \<open>contains\<close> fails its assertion, and so does
  \<open>decode\<close>, which calls it first: neither returns a value.
\<close>

theorem contains_asserts_buffer:
  "\<not> isBuffer key \<Longrightarrow>
     contains N key = Inl AssertionError \<and> decode N key = Inl AssertionError"
  by (cases key) (simp_all add: decode_def)

theorem contains_asserts_buffer_witness:
  "\<not> isBuffer (JString ''k'')
   \<and> contains sample_prefix (JString ''k'') = Inl AssertionError
   \<and> decode sample_prefix (JString ''k'') = Inl AssertionError"
  using contains_asserts_buffer [of "JString ''k''" sample_prefix] by simp

section \<open>Prefix: append\<close>

lemma concat_js_scalar: "\<not> isArray s \<Longrightarrow> concat_js xs s = xs @ [s]"
  by (cases s) simp_all

lemma append_array_splices: "Prefix_append enc N (JArray xs) = Prefix_new enc (path N @ xs)"
  by (simp add: Prefix_append_def)

lemma append_empty_array_same_buffer:
  "buffer (Prefix_append enc (Prefix_new enc p) (JArray [])) = buffer (Prefix_new enc p)"
  by (simp add: Prefix_append_def Prefix_new_def)

lemma append_singleton_array_same_buffer:
  "\<not> isArray s \<Longrightarrow> buffer (Prefix_append enc N (JArray [s])) = buffer (Prefix_append enc N s)"
  by (simp add: Prefix_append_def Prefix_new_def concat_js_scalar)





section \<open>preIterator\<close>

lemma translate_start_end_only:
  assumes "start_end_only opts"
  shows "translate_start_end (opts, has_of opts) =
           (opts\<lparr>opt_gte := Some (if truthy (getprop (opt_reverse opts))
                                   then or_default (opt_end opts) LOWER_BOUND
                                   else or_default (opt_start opts) LOWER_BOUND),
                 opt_lte := Some (if truthy (getprop (opt_reverse opts))
                                   then or_default (opt_start opts) UPPER_BOUND
                                   else or_default (opt_end opts) UPPER_BOUND),
                 opt_start := None, opt_end := None\<rparr>,
            (has_of opts)\<lparr>has_gte := True, has_lte := True\<rparr>)"
  using assms
  by (auto simp add: start_end_only_def translate_start_end_def has_of_def split: option.splits)

lemma translate_otherwise:
  "\<not> start_end_only opts \<Longrightarrow> translate_start_end (opts, has_of opts) = (opts, has_of opts)"
  by (auto simp add: start_end_only_def translate_start_end_def has_of_def)

lemma start_end_only_keyAsBuffer [simp]:
  "start_end_only (opts\<lparr>opt_keyAsBuffer := v\<rparr>) = start_end_only opts"
  by (simp add: start_end_only_def)

text \<open>
  C3. For options that hold \<open>start\<close> or \<open>end\<close> and none of \<open>gt\<close>, \<open>gte\<close>, \<open>lt\<close>, \<open>lte\<close>:
  when \<open>reverse\<close> is falsy, \<open>preIterator\<close> returns the options with \<open>gte\<close> the encoded
  \<open>start\<close> (or \<open>LOWER_BOUND\<close>) and \<open>lte\<close> the encoded \<open>end\<close> (or \<open>UPPER_BOUND\<close>); when
  \<open>reverse\<close> is truthy, with \<open>gte\<close> the encoded \<open>end\<close> (or \<open>LOWER_BOUND\<close>) and \<open>lte\<close> the
  encoded \<open>start\<close> (or \<open>UPPER_BOUND\<close>); \<open>start\<close> and \<open>end\<close> are removed, and \<open>gt\<close> and \<open>lt\<close>
  stay absent.
\<close>

theorem start_end_translation:
  assumes "start_end_only opts"
  shows "(\<not> truthy (getprop (opt_reverse opts)) \<longrightarrow>
            preIterator N opts =
              with_bounds N opts (or_default (opt_start opts) LOWER_BOUND)
                                 (or_default (opt_end opts) UPPER_BOUND))
       \<and> (truthy (getprop (opt_reverse opts)) \<longrightarrow>
            preIterator N opts =
              with_bounds N opts (or_default (opt_end opts) LOWER_BOUND)
                                 (or_default (opt_start opts) UPPER_BOUND))
       \<and> (\<forall>r. preIterator N opts = Inr r \<longrightarrow>
              opt_start r = None \<and> opt_end r = None \<and> opt_gt r = None \<and> opt_lt r = None)"
proof -
  let ?o = "opts\<lparr>opt_keyAsBuffer := Some (JBool True)\<rparr>"
  have s: "start_end_only ?o" using assms by simp
  note t = translate_start_end_only [OF s]
  have no: "opt_gt opts = None" "opt_gte opts = None" "opt_lt opts = None" "opt_lte opts = None"
    using assms by (simp_all add: start_end_only_def)
  have a: "\<not> truthy (getprop (opt_reverse opts)) \<longrightarrow>
            preIterator N opts =
              with_bounds N opts (or_default (opt_start opts) LOWER_BOUND)
                                 (or_default (opt_end opts) UPPER_BOUND)"
    unfolding preIterator_def Let_def t
    by (simp add: resolve_lower_def resolve_upper_def with_bounds_def has_of_def no
          split: sum.splits)
  have b: "truthy (getprop (opt_reverse opts)) \<longrightarrow>
            preIterator N opts =
              with_bounds N opts (or_default (opt_end opts) LOWER_BOUND)
                                 (or_default (opt_start opts) UPPER_BOUND)"
    unfolding preIterator_def Let_def t
    by (simp add: resolve_lower_def resolve_upper_def with_bounds_def has_of_def no
          split: sum.splits)
  have c: "preIterator N opts = Inr r \<longrightarrow>
              opt_start r = None \<and> opt_end r = None \<and> opt_gt r = None \<and> opt_lt r = None" for r
    using a b no
    by (cases "truthy (getprop (opt_reverse opts))")
       (auto simp add: with_bounds_def split: sum.splits)
  from a b c show ?thesis by blast
qed

lemma utf8_b: "utf8 ''b'' = [0x62]"
  by (simp add: utf8_def utf8_char_def)

lemma utf8_d: "utf8 ''d'' = [0x64]"
  by (simp add: utf8_def utf8_char_def)

theorem start_end_translation_witness:
  "start_end_only (no_options\<lparr>opt_start := Some (JString ''b''), opt_end := Some (JString ''d''),
                              opt_reverse := Some (JBool True)\<rparr>)
   \<and> preIterator sample_prefix
        (no_options\<lparr>opt_start := Some (JString ''b''), opt_end := Some (JString ''d''),
                    opt_reverse := Some (JBool True)\<rparr>)
      = Inr (no_options\<lparr>opt_gte := Some (JBuffer [0xA0, 0x70, 0x61, 0x00, 0x00, 0x64]),
                         opt_lte := Some (JBuffer [0xA0, 0x70, 0x61, 0x00, 0x00, 0x62]),
                         opt_reverse := Some (JBool True),
                         opt_keyAsBuffer := Some (JBool True)\<rparr>)"
proof -
  let ?o = "no_options\<lparr>opt_start := Some (JString ''b''), opt_end := Some (JString ''d''),
                              opt_reverse := Some (JBool True)\<rparr>"
  have h: "start_end_only ?o" by (simp add: start_end_only_def no_options_def)
  from start_end_translation [OF h, of sample_prefix] h show ?thesis
    by (simp add: with_bounds_def encode_def utf8_b utf8_d buffer_sample_prefix no_options_def)
qed

lemma translate_consistent:
  "consistent_lo (translate_start_end (opts, has_of opts))
   \<and> consistent_hi (translate_start_end (opts, has_of opts))"
  by (simp add: consistent_lo_def consistent_hi_def translate_start_end_def has_of_def Let_def)

lemma encode_prefixed: "encode N v = Inr b \<Longrightarrow> prefix (buffer N) b"
  by (auto simp add: encode_def Let_def split: jsval.splits)

lemma resolve_lower_fields:
  assumes "resolve_lower N (opts, has) = Inr r" and "consistent_lo (opts, has)"
  shows "opt_lt r = opt_lt opts \<and> opt_lte r = opt_lte opts
       \<and> opt_start r = opt_start opts \<and> opt_end r = opt_end opts
       \<and> ((\<exists>b. opt_gt r = Some (JBuffer b) \<and> prefix (buffer N) b \<and> opt_gte r = None)
          \<or> (\<exists>b. opt_gte r = Some (JBuffer b) \<and> prefix (buffer N) b \<and> opt_gt r = None))"
  using assms
  apply (simp add: resolve_lower_def consistent_lo_def split: if_splits sum.splits)
  apply (auto dest: encode_prefixed)
  done

lemma resolve_upper_fields:
  assumes "resolve_upper N (opts, has) = Inr r" and "consistent_hi (opts, has)"
  shows "opt_gt r = opt_gt opts \<and> opt_gte r = opt_gte opts
       \<and> opt_start r = opt_start opts \<and> opt_end r = opt_end opts
       \<and> ((\<exists>b. opt_lt r = Some (JBuffer b) \<and> prefix (buffer N) b \<and> opt_lte r = None)
          \<or> (\<exists>b. opt_lte r = Some (JBuffer b) \<and> prefix (buffer N) b \<and> opt_lt r = None))"
  using assms
  apply (simp add: resolve_upper_def consistent_hi_def split: if_splits sum.splits)
  apply (auto dest: encode_prefixed)
  done

lemma preIterator_phases:
  assumes "preIterator N opts = Inr r"
      and "translate_start_end (opts\<lparr>opt_keyAsBuffer := Some (JBool True)\<rparr>,
                                has_of (opts\<lparr>opt_keyAsBuffer := Some (JBool True)\<rparr>)) = (o1, h1)"
  obtains o2 where "resolve_lower N (o1, h1) = Inr o2" and "resolve_upper N (o2, h1) = Inr r"
  using assms by (auto simp add: preIterator_def Let_def split: sum.splits)

lemma preIterator_shape:
  assumes "preIterator N opts = Inr r"
  shows "((\<exists>b. opt_gt r = Some (JBuffer b) \<and> prefix (buffer N) b \<and> opt_gte r = None)
          \<or> (\<exists>b. opt_gte r = Some (JBuffer b) \<and> prefix (buffer N) b \<and> opt_gt r = None))
       \<and> ((\<exists>b. opt_lt r = Some (JBuffer b) \<and> prefix (buffer N) b \<and> opt_lte r = None)
          \<or> (\<exists>b. opt_lte r = Some (JBuffer b) \<and> prefix (buffer N) b \<and> opt_lt r = None))"
proof -
  let ?o = "opts\<lparr>opt_keyAsBuffer := Some (JBool True)\<rparr>"
  obtain o1 h1 where t: "translate_start_end (?o, has_of ?o) = (o1, h1)"
    by (cases "translate_start_end (?o, has_of ?o)")
  have c1: "consistent_lo (o1, h1)" and c1': "consistent_hi (o1, h1)"
    using translate_consistent [of ?o] t by simp_all
  from preIterator_phases [OF assms t] obtain o2
    where lo: "resolve_lower N (o1, h1) = Inr o2" and up: "resolve_upper N (o2, h1) = Inr r"
    by blast
  note L = resolve_lower_fields [OF lo c1]
  have c2: "consistent_hi (o2, h1)"
    using c1' L by (simp add: consistent_hi_def)
  note U = resolve_upper_fields [OF up c2]
  from L U show ?thesis by auto
qed

lemma between_prefixed:
  fixes p :: "'a::linorder list"
  assumes "prefix p lo" "prefix p hi" "lo \<le> k" "k \<le> hi"
  shows "prefix p k"
  using assms
proof (induction p arbitrary: lo hi k)
  case Nil
  then show ?case by simp
next
  case (Cons a p)
  from Cons.prems(1,2) obtain lo' hi' where lo: "lo = a # lo'" and hi: "hi = a # hi'"
    and pl: "prefix p lo'" and ph: "prefix p hi'"
    unfolding prefix_def by auto
  from Cons.prems(3) lo obtain b k' where k: "k = b # k'"
    by (cases k) auto
  from Cons.prems(3,4) lo hi k have "b = a" by (auto split: if_splits)
  with Cons.prems(3,4) lo hi k have "lo' \<le> k'" "k' \<le> hi'" by auto
  from Cons.IH [OF pl ph this] k \<open>b = a\<close> show ?case by simp
qed

text \<open>
  C4. Whatever options the caller supplies, every one of \<open>gt\<close>, \<open>gte\<close>, \<open>lt\<close>, \<open>lte\<close> in
  the options that \<open>preIterator\<close> returns is a buffer that begins with the prefix bytes of
  the namespace, and every key between the returned bounds begins with them too.
\<close>

theorem bounds_confined:
  assumes "preIterator N opts = Inr r"
  shows "(\<forall>v \<in> set (bounds_of r). prefixed N v)
       \<and> (\<forall>k. in_window r k \<longrightarrow> contains N (JBuffer k) = Inr True)"
proof -
  note S = preIterator_shape [OF assms]
  have a: "\<forall>v \<in> set (bounds_of r). prefixed N v"
    using S by (auto simp add: bounds_of_def)
  have b: "in_window r k \<Longrightarrow> contains N (JBuffer k) = Inr True" for k
  proof -
    assume w: "in_window r k"
    from S w obtain lo hi
      where "prefix (buffer N) lo" "prefix (buffer N) hi" "lo \<le> k" "k \<le> hi"
      by (auto simp add: in_window_def)
    from between_prefixed [OF this] show ?thesis
      by (auto simp add: prefix_def)
  qed
  from a b show ?thesis by blast
qed

theorem bounds_confined_witness:
  "preIterator sample_prefix
     (no_options\<lparr>opt_gte := Some (JBuffer [0x01]), opt_lt := Some (JBuffer [])\<rparr>)
     = Inr (no_options\<lparr>opt_gte := Some (JBuffer [0xA0, 0x70, 0x61, 0x00, 0x00, 0x01]),
                        opt_lt := Some (JBuffer [0xA0, 0x70, 0x61, 0x00, 0x00]),
                        opt_keyAsBuffer := Some (JBool True)\<rparr>)
   \<and> prefixed sample_prefix (JBuffer [0xA0, 0x70, 0x61, 0x00, 0x00, 0x01])
   \<and> prefixed sample_prefix (JBuffer [0xA0, 0x70, 0x61, 0x00, 0x00])"
proof -
  let ?r = "no_options\<lparr>opt_gte := Some (JBuffer [0xA0, 0x70, 0x61, 0x00, 0x00, 0x01]),
                        opt_lt := Some (JBuffer [0xA0, 0x70, 0x61, 0x00, 0x00]),
                        opt_keyAsBuffer := Some (JBool True)\<rparr>"
  have h: "preIterator sample_prefix
             (no_options\<lparr>opt_gte := Some (JBuffer [0x01]), opt_lt := Some (JBuffer [])\<rparr>)
           = Inr ?r"
    by (simp add: preIterator_def translate_start_end_def has_of_def resolve_lower_def
          resolve_upper_def encode_def buffer_sample_prefix no_options_def)
  have b: "bounds_of ?r = [JBuffer [0xA0, 0x70, 0x61, 0x00, 0x00, 0x01],
                           JBuffer [0xA0, 0x70, 0x61, 0x00, 0x00]]"
    by (simp add: bounds_of_def no_options_def)
  from bounds_confined [OF h] have "\<forall>v \<in> set (bounds_of ?r). prefixed sample_prefix v"
    by blast
  with h show ?thesis unfolding b by simp
qed

lemma resolve_lower_ignores_flags:
  "resolve_lower N (opts, has\<lparr>has_start := a, has_end := b\<rparr>) = resolve_lower N (opts, has)"
  by (simp add: resolve_lower_def)

lemma resolve_upper_ignores_flags:
  "resolve_upper N (opts, has\<lparr>has_start := a, has_end := b\<rparr>) = resolve_upper N (opts, has)"
  by (simp add: resolve_upper_def)

lemma resolve_lower_start_end:
  "resolve_lower N (opts\<lparr>opt_start := s, opt_end := e\<rparr>, has) =
     map_sum id (\<lambda>r. r\<lparr>opt_start := s, opt_end := e\<rparr>) (resolve_lower N (opts, has))"
  by (simp add: resolve_lower_def split: sum.splits)

lemma resolve_upper_start_end:
  "resolve_upper N (opts\<lparr>opt_start := s, opt_end := e\<rparr>, has) =
     map_sum id (\<lambda>r. r\<lparr>opt_start := s, opt_end := e\<rparr>) (resolve_upper N (opts, has))"
  by (simp add: resolve_upper_def split: sum.splits)

lemma has_of_without_start_end:
  "has_of (opts\<lparr>opt_start := None, opt_end := None\<rparr>) =
     (has_of opts)\<lparr>has_start := False, has_end := False\<rparr>"
  by (simp add: has_of_def)

lemma mixed_not_only: "mixed opts \<Longrightarrow> \<not> start_end_only opts"
  by (auto simp add: mixed_def start_end_only_def)

lemma no_start_end_not_only:
  "\<not> start_end_only (opts\<lparr>opt_start := None, opt_end := None\<rparr>)"
  by (simp add: start_end_only_def)

lemma preIterator_untranslated:
  assumes "\<not> start_end_only opts"
  shows "preIterator N opts =
     (case resolve_lower N (opts\<lparr>opt_keyAsBuffer := Some (JBool True)\<rparr>,
                            has_of opts) of
        Inl e \<Rightarrow> Inl e
      | Inr o2 \<Rightarrow> resolve_upper N (o2, has_of opts))"
proof -
  let ?o = "opts\<lparr>opt_keyAsBuffer := Some (JBool True)\<rparr>"
  have h: "has_of ?o = has_of opts" by (simp add: has_of_def)
  have "\<not> start_end_only ?o" using assms by simp
  from translate_otherwise [OF this] show ?thesis
    by (simp add: preIterator_def h)
qed

text \<open>
  C5 (as amended). For options that hold \<open>start\<close> or \<open>end\<close> together with one of \<open>gt\<close>,
  \<open>gte\<close>, \<open>lt\<close>, \<open>lte\<close>, \<open>preIterator\<close> raises no condition of its own: it does what it does
  for the same options without \<open>start\<close> and \<open>end\<close>, and hands \<open>start\<close> and \<open>end\<close> on as the
  caller gave them, not encoded.
\<close>

theorem mixed_styles_pass_through:
  assumes "mixed opts"
  shows "preIterator N opts =
           map_sum id (\<lambda>r. r\<lparr>opt_start := opt_start opts, opt_end := opt_end opts\<rparr>)
             (preIterator N (opts\<lparr>opt_start := None, opt_end := None\<rparr>))"
proof -
  let ?p = "opts\<lparr>opt_start := None, opt_end := None\<rparr>"
  let ?pk = "?p\<lparr>opt_keyAsBuffer := Some (JBool True)\<rparr>"
  let ?ok = "opts\<lparr>opt_keyAsBuffer := Some (JBool True)\<rparr>"
  let ?u = "\<lambda>r. r\<lparr>opt_start := opt_start opts, opt_end := opt_end opts\<rparr>"
  have ok: "?ok = ?pk\<lparr>opt_start := opt_start opts, opt_end := opt_end opts\<rparr>" by simp
  have lo: "resolve_lower N (?ok, has_of opts) = map_sum id ?u (resolve_lower N (?pk, has_of ?p))"
    by (subst ok, subst resolve_lower_start_end)
       (simp add: has_of_without_start_end resolve_lower_ignores_flags)
  have up: "resolve_upper N (?u o2, has_of opts) = map_sum id ?u (resolve_upper N (o2, has_of ?p))"
    for o2
    by (subst resolve_upper_start_end)
       (simp add: has_of_without_start_end resolve_upper_ignores_flags)
  show ?thesis
    unfolding preIterator_untranslated [OF mixed_not_only [OF assms]]
              preIterator_untranslated [OF no_start_end_not_only] lo
    by (cases "resolve_lower N (?pk, has_of ?p)") (simp_all add: up)
qed

theorem mixed_styles_pass_through_witness:
  "mixed (no_options\<lparr>opt_start := Some (JString ''b''), opt_gt := Some (JBuffer [0x01])\<rparr>)
   \<and> preIterator sample_prefix
        (no_options\<lparr>opt_start := Some (JString ''b''), opt_gt := Some (JBuffer [0x01])\<rparr>)
     = map_sum id (\<lambda>r. r\<lparr>opt_start := Some (JString ''b''), opt_end := None\<rparr>)
         (preIterator sample_prefix (no_options\<lparr>opt_gt := Some (JBuffer [0x01])\<rparr>))"
proof -
  have h: "mixed (no_options\<lparr>opt_start := Some (JString ''b''), opt_gt := Some (JBuffer [0x01])\<rparr>)"
    by (simp add: mixed_def no_options_def)
  from mixed_styles_pass_through [OF h, of sample_prefix] h show ?thesis
    by (simp add: no_options_def)
qed

theorem mixed_styles_counterexample:
  "preIterator sample_prefix
     (no_options\<lparr>opt_start := Some (JString ''b''), opt_gt := Some (JBuffer [0x01])\<rparr>)
   = Inr (no_options\<lparr>opt_start := Some (JString ''b''),
                      opt_gt := Some (JBuffer [0xA0, 0x70, 0x61, 0x00, 0x00, 0x01]),
                      opt_lt := Some (JBuffer [0xA0, 0x70, 0x61, 0x00, 0x00, 0xFF]),
                      opt_keyAsBuffer := Some (JBool True)\<rparr>)"
  by (simp add: preIterator_def translate_start_end_def has_of_def resolve_lower_def
        resolve_upper_def encode_def buffer_sample_prefix no_options_def UPPER_BOUND_def)

lemma translate_keeps_gt_lt:
  assumes "translate_start_end (opts, has_of opts) = (o1, h1)"
  shows "opt_gt o1 = opt_gt opts \<and> opt_lt o1 = opt_lt opts
       \<and> has_gt h1 = (opt_gt opts \<noteq> None) \<and> has_lt h1 = (opt_lt opts \<noteq> None)
       \<and> (\<not> start_end_only opts \<longrightarrow> o1 = opts \<and> h1 = has_of opts)"
  using assms
  by (auto simp add: translate_start_end_def has_of_def start_end_only_def Let_def
        split: if_splits)

lemma resolve_lower_cases:
  assumes "resolve_lower N (o1, h1) = Inr o2"
  shows "(has_gt h1 \<longrightarrow>
            (\<exists>b. encode N (getprop (opt_gt o1)) = Inr b \<and> opt_gt o2 = Some (JBuffer b))
            \<and> opt_gte o2 = None)
       \<and> (\<not> has_gt h1 \<and> has_gte h1 \<longrightarrow>
            (\<exists>b. encode N (getprop (opt_gte o1)) = Inr b \<and> opt_gte o2 = Some (JBuffer b))
            \<and> opt_gt o2 = opt_gt o1)
       \<and> (\<not> has_gt h1 \<and> \<not> has_gte h1 \<longrightarrow>
            opt_gt o2 = Some (JBuffer (buffer N)) \<and> opt_gte o2 = opt_gte o1)
       \<and> opt_lt o2 = opt_lt o1 \<and> opt_lte o2 = opt_lte o1"
  using assms
  by (auto simp add: resolve_lower_def encode_def LOWER_BOUND_def split: if_splits sum.splits)

lemma resolve_upper_cases:
  assumes "resolve_upper N (o2, h1) = Inr r"
  shows "(has_lt h1 \<longrightarrow>
            (\<exists>b. encode N (getprop (opt_lt o2)) = Inr b \<and> opt_lt r = Some (JBuffer b))
            \<and> opt_lte r = None)
       \<and> (\<not> has_lt h1 \<and> has_lte h1 \<longrightarrow>
            (\<exists>b. encode N (getprop (opt_lte o2)) = Inr b \<and> opt_lte r = Some (JBuffer b))
            \<and> opt_lt r = opt_lt o2)
       \<and> (\<not> has_lt h1 \<and> \<not> has_lte h1 \<longrightarrow>
            opt_lt r = Some (JBuffer (buffer N @ [0xFF])) \<and> opt_lte r = opt_lte o2)
       \<and> opt_gt r = opt_gt o2 \<and> opt_gte r = opt_gte o2"
  using assms
  by (auto simp add: resolve_upper_def encode_def UPPER_BOUND_def split: if_splits sum.splits)

lemma preIterator_no_bounds:
  assumes "opt_start opts = None" "opt_end opts = None" "opt_gt opts = None"
          "opt_gte opts = None" "opt_lt opts = None" "opt_lte opts = None"
  shows "preIterator N opts =
           Inr (opts\<lparr>opt_gt := Some (JBuffer (buffer N)),
                     opt_lt := Some (JBuffer (buffer N @ [0xFF])),
                     opt_keyAsBuffer := Some (JBool True)\<rparr>)"
  using assms
  by (simp add: preIterator_def translate_start_end_def has_of_def resolve_lower_def
        resolve_upper_def Let_def encode_def UPPER_BOUND_def LOWER_BOUND_def)

lemma lower_final:
  assumes lo: "resolve_lower N (o1, h1) = Inr o2" and up: "resolve_upper N (o2, h1) = Inr r"
      and c: "consistent_lo (o1, h1)"
  shows "(has_gt h1 \<longrightarrow>
         (\<exists>b. encode N (getprop (opt_gt o1)) = Inr b \<and> opt_gt r = Some (JBuffer b))
         \<and> opt_gte r = None)
    \<and> (\<not> has_gt h1 \<and> has_gte h1 \<longrightarrow>
         (\<exists>b. encode N (getprop (opt_gte o1)) = Inr b \<and> opt_gte r = Some (JBuffer b))
         \<and> opt_gt r = None)
    \<and> (\<not> has_gt h1 \<and> \<not> has_gte h1 \<longrightarrow>
         opt_gt r = Some (JBuffer (buffer N)) \<and> opt_gte r = None)"
proof -
  from resolve_upper_cases [OF up]
  have same: "opt_gt r = opt_gt o2" "opt_gte r = opt_gte o2" by simp_all
  from c have h: "has_gt h1 = (opt_gt o1 \<noteq> None)" "has_gte h1 = (opt_gte o1 \<noteq> None)"
    by (simp_all add: consistent_lo_def)
  show ?thesis
    using resolve_lower_cases [OF lo] h unfolding same
    by (cases "has_gt h1"; cases "has_gte h1"; simp)
qed

lemma upper_final:
  assumes lo: "resolve_lower N (o1, h1) = Inr o2" and up: "resolve_upper N (o2, h1) = Inr r"
      and c: "consistent_hi (o1, h1)"
  shows "(has_lt h1 \<longrightarrow>
         (\<exists>b. encode N (getprop (opt_lt o1)) = Inr b \<and> opt_lt r = Some (JBuffer b))
         \<and> opt_lte r = None)
    \<and> (\<not> has_lt h1 \<and> has_lte h1 \<longrightarrow>
         (\<exists>b. encode N (getprop (opt_lte o1)) = Inr b \<and> opt_lte r = Some (JBuffer b))
         \<and> opt_lt r = None)
    \<and> (\<not> has_lt h1 \<and> \<not> has_lte h1 \<longrightarrow>
         opt_lt r = Some (JBuffer (buffer N @ [0xFF])) \<and> opt_lte r = None)"
proof -
  from resolve_lower_cases [OF lo]
  have same: "opt_lt o2 = opt_lt o1" "opt_lte o2 = opt_lte o1" by simp_all
  from c have h: "has_lt h1 = (opt_lt o1 \<noteq> None)" "has_lte h1 = (opt_lte o1 \<noteq> None)"
    by (simp_all add: consistent_hi_def)
  show ?thesis
    using resolve_upper_cases [OF up] h unfolding same
    by (cases "has_lt h1"; cases "has_lte h1"; simp)
qed

text \<open>
  C6. Let \<open>o1\<close> and \<open>h1\<close> be the options and the flags \<open>has\<close> after the translation of
  \<open>start\<close> and \<open>end\<close>; \<open>gt\<close> and \<open>lt\<close> are always the caller's, and all of \<open>o1\<close>, \<open>h1\<close> are
  unless the options hold only \<open>start\<close> or \<open>end\<close>. In the options that \<open>preIterator\<close>
  returns: if \<open>gt\<close> is present, \<open>gt\<close> is its encoding and \<open>gte\<close> is absent; else if \<open>gte\<close>
  is present, \<open>gte\<close> is its encoding and \<open>gt\<close> is absent; else \<open>gt\<close> is the prefix bytes
  (the encoded empty buffer) and \<open>gte\<close> is absent. In the same way \<open>lt\<close> goes before \<open>lte\<close>,
  and with neither \<open>lt\<close> is the prefix bytes followed by \<open>0xFF\<close>. With no bound at all the
  call succeeds with exactly \<open>gt\<close> the prefix bytes and \<open>lt\<close> the prefix bytes and \<open>0xFF\<close>.
\<close>

theorem bounds_precedence:
  "(preIterator N opts = Inr r
      \<and> translate_start_end (opts\<lparr>opt_keyAsBuffer := Some (JBool True)\<rparr>,
                              has_of (opts\<lparr>opt_keyAsBuffer := Some (JBool True)\<rparr>)) = (o1, h1)
    \<longrightarrow>
      (has_gt h1 \<longrightarrow>
         (\<exists>b. encode N (getprop (opt_gt o1)) = Inr b \<and> opt_gt r = Some (JBuffer b))
         \<and> opt_gte r = None)
    \<and> (\<not> has_gt h1 \<and> has_gte h1 \<longrightarrow>
         (\<exists>b. encode N (getprop (opt_gte o1)) = Inr b \<and> opt_gte r = Some (JBuffer b))
         \<and> opt_gt r = None)
    \<and> (\<not> has_gt h1 \<and> \<not> has_gte h1 \<longrightarrow>
         opt_gt r = Some (JBuffer (buffer N)) \<and> opt_gte r = None)
    \<and> (has_lt h1 \<longrightarrow>
         (\<exists>b. encode N (getprop (opt_lt o1)) = Inr b \<and> opt_lt r = Some (JBuffer b))
         \<and> opt_lte r = None)
    \<and> (\<not> has_lt h1 \<and> has_lte h1 \<longrightarrow>
         (\<exists>b. encode N (getprop (opt_lte o1)) = Inr b \<and> opt_lte r = Some (JBuffer b))
         \<and> opt_lt r = None)
    \<and> (\<not> has_lt h1 \<and> \<not> has_lte h1 \<longrightarrow>
         opt_lt r = Some (JBuffer (buffer N @ [0xFF])) \<and> opt_lte r = None)
    \<and> opt_gt o1 = opt_gt opts \<and> opt_lt o1 = opt_lt opts
    \<and> has_gt h1 = (opt_gt opts \<noteq> None) \<and> has_lt h1 = (opt_lt opts \<noteq> None)
    \<and> (\<not> start_end_only opts \<longrightarrow>
         opt_gte o1 = opt_gte opts \<and> opt_lte o1 = opt_lte opts
         \<and> has_gte h1 = (opt_gte opts \<noteq> None) \<and> has_lte h1 = (opt_lte opts \<noteq> None)))
   \<and> (opt_start opts = None \<and> opt_end opts = None \<and> opt_gt opts = None
      \<and> opt_gte opts = None \<and> opt_lt opts = None \<and> opt_lte opts = None
    \<longrightarrow>
      preIterator N opts =
        Inr (opts\<lparr>opt_gt := Some (JBuffer (buffer N)),
                  opt_lt := Some (JBuffer (buffer N @ [0xFF])),
                  opt_keyAsBuffer := Some (JBool True)\<rparr>))"
  (is "(?run \<longrightarrow> ?cases) \<and> (?none \<longrightarrow> ?full)")
proof -
  have full: "?none \<longrightarrow> ?full"
    by (simp add: preIterator_no_bounds)
  have cases: "?run \<longrightarrow> ?cases"
  proof
    let ?o = "opts\<lparr>opt_keyAsBuffer := Some (JBool True)\<rparr>"
    assume a: ?run
    then have run: "preIterator N opts = Inr r"
      and t: "translate_start_end (?o, has_of ?o) = (o1, h1)" by simp_all
    from preIterator_phases [OF run t] obtain o2
      where lo: "resolve_lower N (o1, h1) = Inr o2" and up: "resolve_upper N (o2, h1) = Inr r"
      by blast
    have c: "consistent_lo (o1, h1)" "consistent_hi (o1, h1)"
      using translate_consistent [of ?o] t by simp_all
    have K: "opt_gt o1 = opt_gt opts \<and> opt_lt o1 = opt_lt opts
       \<and> has_gt h1 = (opt_gt opts \<noteq> None) \<and> has_lt h1 = (opt_lt opts \<noteq> None)
       \<and> (\<not> start_end_only opts \<longrightarrow>
         opt_gte o1 = opt_gte opts \<and> opt_lte o1 = opt_lte opts
         \<and> has_gte h1 = (opt_gte opts \<noteq> None) \<and> has_lte h1 = (opt_lte opts \<noteq> None))"
      using translate_keeps_gt_lt [OF t] by (simp add: has_of_def)
    from lower_final [OF lo up c(1)] upper_final [OF lo up c(2)] K
    show ?cases by blast
  qed
  from cases full show ?thesis by blast
qed

theorem bounds_precedence_witness:
  "preIterator sample_prefix
     (no_options\<lparr>opt_gt := Some (JBuffer [0x62]), opt_gte := Some (JBuffer [0x64])\<rparr>)
     = Inr (no_options\<lparr>opt_gt := Some (JBuffer [0xA0, 0x70, 0x61, 0x00, 0x00, 0x62]),
                        opt_lt := Some (JBuffer [0xA0, 0x70, 0x61, 0x00, 0x00, 0xFF]),
                        opt_keyAsBuffer := Some (JBool True)\<rparr>)
   \<and> (\<exists>b. encode sample_prefix (JBuffer [0x62]) = Inr b
          \<and> opt_gt (no_options\<lparr>opt_gt := Some (JBuffer [0xA0, 0x70, 0x61, 0x00, 0x00, 0x62]),
                        opt_lt := Some (JBuffer [0xA0, 0x70, 0x61, 0x00, 0x00, 0xFF]),
                        opt_keyAsBuffer := Some (JBool True)\<rparr>) = Some (JBuffer b))"
proof -
  let ?o = "no_options\<lparr>opt_gt := Some (JBuffer [0x62]), opt_gte := Some (JBuffer [0x64])\<rparr>"
  let ?r = "no_options\<lparr>opt_gt := Some (JBuffer [0xA0, 0x70, 0x61, 0x00, 0x00, 0x62]),
                        opt_lt := Some (JBuffer [0xA0, 0x70, 0x61, 0x00, 0x00, 0xFF]),
                        opt_keyAsBuffer := Some (JBool True)\<rparr>"
  let ?ok = "?o\<lparr>opt_keyAsBuffer := Some (JBool True)\<rparr>"
  have run: "preIterator sample_prefix ?o = Inr ?r"
    by (simp add: preIterator_def translate_start_end_def has_of_def resolve_lower_def
          resolve_upper_def encode_def buffer_sample_prefix no_options_def UPPER_BOUND_def)
  have t: "translate_start_end (?ok, has_of ?ok) = (?ok, has_of ?ok)"
    by (simp add: translate_start_end_def has_of_def no_options_def)
  have g: "has_gt (has_of ?ok)" by (simp add: has_of_def no_options_def)
  have v: "getprop (opt_gt ?ok) = JBuffer [0x62]" by (simp add: no_options_def)
  from bounds_precedence [of sample_prefix ?o ?r ?ok "has_of ?ok"] run t g
  have "\<exists>b. encode sample_prefix (getprop (opt_gt ?ok)) = Inr b \<and> opt_gt ?r = Some (JBuffer b)"
    by blast
  with run show ?thesis unfolding v by blast
qed

lemma byte_below_max: "(b :: byte) < 0xFF \<longleftrightarrow> b \<noteq> 0xFF"
proof -
  have "unat b < 2 ^ LENGTH(8)" by (rule unsigned_less)
  then have "unat b < 256" by simp
  then show ?thesis
    by (auto simp add: word_less_nat_alt word_unat_eq_iff)
qed

lemma append_less_append: "(p @ u < p @ v) = (u < (v :: 'a::linorder list))"
  by (induction p) auto

text \<open>The keys strictly between the default bounds are the prefix bytes followed by a
  non-empty remainder whose first byte is not \<open>0xFF\<close>.\<close>

lemma default_window:
  fixes p :: bytes
  shows "(p < k \<and> k < p @ [0xFF]) \<longleftrightarrow> (\<exists>u. k = p @ u \<and> u \<noteq> [] \<and> hd u \<noteq> 0xFF)"
proof
  assume h: "p < k \<and> k < p @ [0xFF]"
  then have "p \<le> k" "k \<le> p @ [0xFF]" by (auto intro: less_imp_le)
  have "prefix p p" "prefix p (p @ [0xFF])" by simp_all
  from between_prefixed [OF this \<open>p \<le> k\<close> \<open>k \<le> p @ [0xFF]\<close>]
  obtain u where k: "k = p @ u"
    by (auto simp add: prefix_def)
  from h k have "[] < u" "u < [0xFF]"
    using append_less_append [of p "[]" u] append_less_append [of p u "[0xFF]"] by simp_all
  then have "u \<noteq> [] \<and> hd u \<noteq> 0xFF"
    by (cases u) (auto simp add: byte_below_max)
  with k show "\<exists>u. k = p @ u \<and> u \<noteq> [] \<and> hd u \<noteq> 0xFF" by blast
next
  assume "\<exists>u. k = p @ u \<and> u \<noteq> [] \<and> hd u \<noteq> 0xFF"
  then obtain u where k: "k = p @ u" and u: "u \<noteq> []" "hd u \<noteq> 0xFF" by blast
  from u have "[] < u" "u < [0xFF]"
    by (cases u; simp add: byte_below_max)+
  then show "p < k \<and> k < p @ [0xFF]"
    using append_less_append [of p "[]" u] append_less_append [of p u "[0xFF]"] k by simp
qed

section \<open>addHook\<close>

lemma indexOf_nonneg_iff: "indexOf xs x \<ge> 0 \<longleftrightarrow> x \<in> set xs"
  by (induction xs) (auto simp add: Let_def)

lemma splice1_indexOf: "x \<in> set xs \<Longrightarrow> splice1 xs (nat (indexOf xs x)) = remove1 x xs"
proof (induction xs)
  case Nil
  then show ?case by simp
next
  case (Cons y ys)
  show ?case
  proof (cases "y = x")
    case True
    then show ?thesis by (simp add: splice1_def)
  next
    case False
    with Cons.prems have m: "x \<in> set ys" by simp
    then have ge: "indexOf ys x \<ge> 0" by (simp add: indexOf_nonneg_iff)
    then have "nat (indexOf ys x + 1) = Suc (nat (indexOf ys x))" by simp
    with False ge Cons.IH [OF m] show ?thesis
      by (simp add: splice1_def Let_def)
  qed
qed

lemma deregister_remove1: "deregister h hs = remove1 h hs"
  by (cases "h \<in> set hs")
     (simp_all add: deregister_def Let_def indexOf_nonneg_iff splice1_indexOf remove1_idem)

text \<open>
  C9 (as amended). \<open>addHook\<close> appends the hook to the list, and the function it returns
  removes from the list, as it is when the function is called, the first element equal to
  that hook, if there is one. After registering one hook twice, a first call of the first
  handle leaves exactly one registration of it, and a second call of the same handle
  removes that one too.
\<close>

theorem deregister_removes_first_equal:
  "fst (addHook hooks h) = hooks @ [h]
   \<and> snd (addHook hooks h) hs = remove1 h hs
   \<and> snd (addHook [] h) (fst (addHook (fst (addHook [] h)) h)) = [h]
   \<and> snd (addHook [] h) (snd (addHook [] h) (fst (addHook (fst (addHook [] h)) h))) = []"
  by (simp add: addHook_def deregister_remove1)

theorem deregister_removes_first_equal_witness:
  "fst (addHook [1, 2] (1 :: nat)) = [1, 2, 1]
   \<and> snd (addHook [1, 2] (1 :: nat)) [1, 2, 1] = [2, 1]"
  using deregister_removes_first_equal [of "[1, 2]" "1 :: nat" "[1, 2, 1]"]
  by simp

theorem deregister_twice_counterexample:
  "snd (addHook [] (7 :: nat)) (fst (addHook (fst (addHook [] 7)) 7)) = [7]
   \<and> snd (addHook [] (7 :: nat))
        (snd (addHook [] 7) (fst (addHook (fst (addHook [] 7)) 7))) = []
   \<and> snd (addHook [1, 2] (1 :: nat)) (fst (addHook [1, 2] 1)) = [2, 1]"
  by (simp add: addHook_def deregister_def splice1_def Let_def)


section \<open>The loop over the batch\<close>
















section \<open>Encoding and post-hooks of index.js\<close>








section \<open>Encoding and post-hooks of the earlier variant\<close>


















end
